theory Spec2Isabelle
  imports Main
begin

section \<open>Data model\<close>

text \<open>
  The models of \<^verbatim>\<open>newsletter/models.py\<close> as records.  A primary key is
  \<open>None\<close> until the first save.  A foreign key holds the primary key of the row it
  refers to, except \<open>user\<close>, which holds the linked account with its e-mail address;
  the many-to-many relation \<open>subscriptions\<close> of a submission is the list of the
  primary keys of its subscriptions.  Timestamps are integers.  Fields that none of the
  embedded methods reads (titles, sender addresses, IP address, activation code, creation
  dates) are left out.
\<close>

type_synonym datetime = int

datatype error = AssertionError | TypeError | ValidationError | DoesNotExist
  | IntegrityError | RenderError | IMAP4_error

record Newsletter =
  newsletter_pk :: "nat option"
  slug :: string

record auth_user =
  user_pk :: nat
  user_email :: string

record Subscription =
  pk :: "nat option"
  user :: "auth_user option"
  name_field :: "string option"
  email_field :: "string option"
  newsletter :: "nat option"
  subscribed :: bool
  subscribe_date :: "datetime option"
  unsubscribed :: bool
  unsubscribe_date :: "datetime option"

record Bounce =
  bounce_subscription :: "nat option"
  hard :: bool
  status_code :: string
  content :: string

record Message =
  message_pk :: "nat option"
  message_slug :: string
  message_newsletter :: "nat option"

record Submission =
  submission_pk :: "nat option"
  message :: "nat option"
  submission_newsletter :: "nat option"
  subscriptions :: "nat list"
  publish_date :: "datetime option"
  prepared :: bool
  sent :: bool
  sending :: bool

text \<open>
  An e-mail as \<^verbatim>\<open>email.parser\<close> returns it: the header fields in order, the
  content type, and the sub-parts of a multipart (or \<^verbatim>\<open>message/*\<close>) payload.
\<close>

datatype email = Email (headers: "(string \<times> string) list") (content_type: string)
  (payload: "email list")

text \<open>
  The bounce mailbox.  Each message of the inbox carries what the IMAP server answers for
  it: the result of \<^verbatim>\<open>conn.fetch\<close> (an IMAP error, an empty answer, or the raw
  text together with its parse) and the result of \<^verbatim>\<open>conn.copy\<close>.
\<close>

datatype fetch_result = FetchRaises | FetchEmpty | Fetched string email

datatype copy_result = CopyRaises | CopyNO | CopyOK

record imap_message =
  num :: nat
  fetch :: fetch_result
  copy :: copy_result

record mailbox =
  inbox :: "imap_message list"
  past_bounces :: "imap_message list"
  deleted :: "nat list"

text \<open>What the program does to the outside world, in order.\<close>

datatype event =
    SubmitCalled "nat option"
  | MessageSent "nat option" "nat option"
  | MessageFailed "nat option" "nat option"
  | CheckBouncesCalled
  | ErrorLogged error

record state =
  Newsletter_objects :: "Newsletter list"
  Subscription_objects :: "Subscription list"
  Bounce_objects :: "Bounce list"
  Message_objects :: "Message list"
  Submission_objects :: "Submission list"
  bounce_mailbox :: mailbox
  trace :: "event list"

text \<open>
  What the environment decides.  Building the e-mail of a message for a subscriber
  (template rendering, URL reversal, address encoding: everything \<^verbatim>\<open>send_message\<close>
  does before its \<^verbatim>\<open>try\<close> block) may raise, and so may the mail transport's
  \<^verbatim>\<open>message.send()\<close>; both are keyed by the message and the subscriber.  The clock
  gives the successive readings of \<^verbatim>\<open>now()\<close> within one run of the queue.
\<close>

record world =
  render_raises :: "nat option \<Rightarrow> Subscription \<Rightarrow> bool"
  send_raises :: "nat option \<Rightarrow> Subscription \<Rightarrow> bool"
  clock :: "nat \<Rightarrow> datetime"
  BOUNCE_ACCOUNT :: bool
  login_raises :: bool

section \<open>The suppression query\<close>

text \<open>
  \<^verbatim>\<open>SubscribedQuerySet.subscribed\<close> annotates every row of the queryset with
  \<^verbatim>\<open>Sum(Case(When(bounce__hard=True, then=1), default=0))\<close> over the rows of the
  LEFT OUTER JOIN with the bounce table, and keeps the rows with
  \<^verbatim>\<open>subscribed=True, num_hard_bounces=0\<close>.  A subscription without any bounce
  joins one row of NULLs.
\<close>

definition bounce_join :: "state \<Rightarrow> Subscription \<Rightarrow> Bounce option list" where
  "bounce_join st s =
     (case filter (\<lambda>b. pk s \<noteq> None \<and> bounce_subscription b = pk s) (Bounce_objects st) of
        [] \<Rightarrow> [None]
      | b # bs \<Rightarrow> map Some (b # bs))"

definition case_when_hard :: "Bounce option \<Rightarrow> int" where
  "case_when_hard row = (case row of Some b \<Rightarrow> if hard b then 1 else 0 | None \<Rightarrow> 0)"

definition num_hard_bounces :: "state \<Rightarrow> Subscription \<Rightarrow> int" where
  "num_hard_bounces st s = sum_list (map case_when_hard (bounce_join st s))"

definition SubscribedQuerySet_subscribed :: "state \<Rightarrow> Subscription list \<Rightarrow> Subscription list" where
  "SubscribedQuerySet_subscribed st qs =
     filter (\<lambda>s. subscribed s \<and> num_hard_bounces st s = 0) qs"

definition Newsletter_get_subscriptions :: "Newsletter \<Rightarrow> state \<Rightarrow> Subscription list" where
  "Newsletter_get_subscriptions self st =
     SubscribedQuerySet_subscribed st
       (filter (\<lambda>s. newsletter_pk self \<noteq> None \<and> newsletter s = newsletter_pk self)
          (Subscription_objects st))"

text \<open>The hard bounce rows recorded for a subscription, as the specification counts them.\<close>

definition hard_bounces_of :: "state \<Rightarrow> Subscription \<Rightarrow> Bounce list" where
  "hard_bounces_of st s =
     filter (\<lambda>b. pk s \<noteq> None \<and> bounce_subscription b = pk s \<and> hard b) (Bounce_objects st)"

section \<open>Persistence\<close>

text \<open>
  \<^verbatim>\<open>Model.save\<close> of the framework, on a table held as the list of its rows: an
  object without primary key is inserted under a key no row has; an object with a
  primary key replaces the row of that key, and is inserted when no row has it.
\<close>

definition fresh_pk :: "nat option list \<Rightarrow> nat" where
  "fresh_pk ks = Suc (Max (set (0 # map (\<lambda>k. case k of None \<Rightarrow> 0 | Some n \<Rightarrow> n) ks)))"

definition Model_save ::
  "('a \<Rightarrow> nat option) \<Rightarrow> (nat \<Rightarrow> 'a \<Rightarrow> 'a) \<Rightarrow> 'a \<Rightarrow> 'a list \<Rightarrow> 'a \<times> 'a list" where
  "Model_save get_pk set_pk obj rows =
     (case get_pk obj of
        None \<Rightarrow>
          let obj' = set_pk (fresh_pk (map get_pk rows)) obj in (obj', rows @ [obj'])
      | Some k \<Rightarrow>
          if filter (\<lambda>r. get_pk r = Some k) rows = [] then (obj, rows @ [obj])
          else (obj, map (\<lambda>r. if get_pk r = Some k then obj else r) rows))"

section \<open>The subscription state machine\<close>

text \<open>Python's truth value of a nullable string field and of a primary key.\<close>

definition truthy :: "string option \<Rightarrow> bool" where
  "truthy v = (case v of None \<Rightarrow> False | Some s \<Rightarrow> s \<noteq> [])"

definition truthy_pk :: "nat option \<Rightarrow> bool" where
  "truthy_pk k = (case k of None \<Rightarrow> False | Some n \<Rightarrow> n \<noteq> 0)"

text \<open>The helpers \<^verbatim>\<open>_subscribe\<close> and \<^verbatim>\<open>_unsubscribe\<close>; \<open>now\<close> is the clock's reading.\<close>

definition Subscription_subscribe :: "datetime \<Rightarrow> Subscription \<Rightarrow> Subscription" where
  "Subscription_subscribe now self =
     self\<lparr>subscribe_date := Some now, subscribed := True, unsubscribed := False\<rparr>"

definition Subscription_unsubscribe :: "datetime \<Rightarrow> Subscription \<Rightarrow> Subscription" where
  "Subscription_unsubscribe now self =
     self\<lparr>subscribed := False, unsubscribed := True, unsubscribe_date := Some now\<rparr>"

definition Subscription_super_save :: "Subscription \<Rightarrow> state \<Rightarrow> Subscription \<times> state" where
  "Subscription_super_save self st =
     (case Model_save pk (\<lambda>k s. s\<lparr>pk := Some k\<rparr>) self (Subscription_objects st) of
        (self', rows) \<Rightarrow> (self', st\<lparr>Subscription_objects := rows\<rparr>))"

text \<open>
  The identity invariant of the specification: exactly one of the linked account and the
  standalone e-mail field is set.
\<close>

definition exactly_one_identity :: "Subscription \<Rightarrow> bool" where
  "exactly_one_identity s = ((user s \<noteq> None) \<noteq> truthy (email_field s))"

text \<open>
  \<^verbatim>\<open>Subscription.save\<close>.  The result is the exception raised, if any, the object
  and the state afterwards.  The two assertions after each helper call are kept as
  branches.
\<close>

definition Subscription_save ::
  "datetime \<Rightarrow> Subscription \<Rightarrow> state \<Rightarrow> (error + unit) \<times> Subscription \<times> state" where
  "Subscription_save now self st =
     (if \<not> (user self \<noteq> None \<or> truthy (email_field self)) then (Inl AssertionError, self, st)
      else if \<not> ((user self \<noteq> None \<and> \<not> truthy (email_field self))
                  \<or> (truthy (email_field self) \<and> \<not> user self \<noteq> None))
        then (Inl AssertionError, self, st)
      else if truthy_pk (pk self) then
        (case filter (\<lambda>r. pk r = pk self) (Subscription_objects st) of
           [subscription] \<Rightarrow>
             let old_subscribed = subscribed subscription;
                 old_unsubscribed = unsubscribed subscription
             in
               if (subscribed self \<and> \<not> old_subscribed)
                  \<or> (old_unsubscribed \<and> \<not> unsubscribed self) then
                 (let self1 = Subscription_subscribe now self in
                    if unsubscribed self1 then (Inl AssertionError, self1, st)
                    else if \<not> subscribed self1 then (Inl AssertionError, self1, st)
                    else case Subscription_super_save self1 st of
                           (self2, st') \<Rightarrow> (Inr (), self2, st'))
               else if (unsubscribed self \<and> \<not> old_unsubscribed)
                       \<or> (old_subscribed \<and> \<not> subscribed self) then
                 (let self1 = Subscription_unsubscribe now self in
                    if subscribed self1 then (Inl AssertionError, self1, st)
                    else if \<not> unsubscribed self1 then (Inl AssertionError, self1, st)
                    else case Subscription_super_save self1 st of
                           (self2, st') \<Rightarrow> (Inr (), self2, st'))
               else (case Subscription_super_save self st of
                       (self2, st') \<Rightarrow> (Inr (), self2, st'))
         | _ \<Rightarrow> (Inl AssertionError, self, st))
      else
        (let self1 = (if subscribed self then Subscription_subscribe now self
                      else if unsubscribed self then Subscription_unsubscribe now self
                      else self)
         in case Subscription_super_save self1 st of
              (self2, st') \<Rightarrow> (Inr (), self2, st')))"

text \<open>\<^verbatim>\<open>Subscription.update\<close>: the requested action sets one flag, then the object is saved.\<close>

definition Subscription_update ::
  "datetime \<Rightarrow> string \<Rightarrow> Subscription \<Rightarrow> state \<Rightarrow> (error + unit) \<times> Subscription \<times> state" where
  "Subscription_update now action self st =
     (if action \<notin> set [''subscribe'', ''update'', ''unsubscribe'']
        then (Inl AssertionError, self, st)
      else
        let self1 = (if action = ''subscribe'' \<or> action = ''update''
                       then self\<lparr>subscribed := True\<rparr>
                       else self\<lparr>unsubscribed := True\<rparr>)
        in Subscription_save now self1 st)"

section \<open>Messages\<close>




section \<open>The submission engine\<close>

text \<open>
  The related message of a submission (\<^verbatim>\<open>self.message\<close>), looked up by the foreign
  key, and the rows of its many-to-many relation \<^verbatim>\<open>self.subscriptions\<close>.
\<close>

definition Submission_message :: "Submission \<Rightarrow> state \<Rightarrow> Message option" where
  "Submission_message self st =
     (case message self of
        None \<Rightarrow> None
      | Some k \<Rightarrow>
          (case filter (\<lambda>m. message_pk m = Some k) (Message_objects st) of
             [] \<Rightarrow> None
           | m # _ \<Rightarrow> Some m))"

definition Submission_subscriptions :: "Submission \<Rightarrow> state \<Rightarrow> Subscription list" where
  "Submission_subscriptions self st =
     filter (\<lambda>s. case pk s of None \<Rightarrow> False | Some k \<Rightarrow> k \<in> set (subscriptions self))
       (Subscription_objects st)"

text \<open>
  \<^verbatim>\<open>Submission.save\<close>: the related message must exist and have a newsletter, which
  becomes the submission's own; then the row is written.
\<close>

definition Submission_save :: "Submission \<Rightarrow> state \<Rightarrow> (error + unit) \<times> Submission \<times> state" where
  "Submission_save self st =
     (case Submission_message self st of
        None \<Rightarrow> (Inl DoesNotExist, self, st)
      | Some m \<Rightarrow>
          (case message_newsletter m of
             None \<Rightarrow> (Inl AssertionError, self, st)
           | Some n \<Rightarrow>
               let self1 = self\<lparr>submission_newsletter := Some n\<rparr> in
               case Model_save submission_pk (\<lambda>k s. s\<lparr>submission_pk := Some k\<rparr>) self1
                      (Submission_objects st) of
                 (self2, rows) \<Rightarrow> (Inr (), self2, st\<lparr>Submission_objects := rows\<rparr>)))"

text \<open>
  \<^verbatim>\<open>Submission.send_message\<close>: an exception while the e-mail is built leaves the
  method; an exception of \<^verbatim>\<open>message.send()\<close> is caught and logged.
\<close>

definition Submission_send_message ::
  "world \<Rightarrow> Submission \<Rightarrow> Subscription \<Rightarrow> state \<Rightarrow> (error + unit) \<times> state" where
  "Submission_send_message w self subscription st =
     (if render_raises w (message self) subscription then (Inl RenderError, st)
      else if send_raises w (message self) subscription then
        (Inr (), st\<lparr>trace := trace st @ [MessageFailed (submission_pk self) (pk subscription)]\<rparr>)
      else
        (Inr (), st\<lparr>trace := trace st @ [MessageSent (submission_pk self) (pk subscription)]\<rparr>))"

text \<open>The loop \<^verbatim>\<open>for subscription in subscriptions: self.send_message(subscription)\<close>.\<close>

fun send_all :: "world \<Rightarrow> Submission \<Rightarrow> Subscription list \<Rightarrow> state \<Rightarrow> (error + unit) \<times> state" where
  "send_all w self [] st = (Inr (), st)"
| "send_all w self (subscription # rest) st =
     (case Submission_send_message w self subscription st of
        (Inl e, st') \<Rightarrow> (Inl e, st')
      | (Inr _, st') \<Rightarrow> send_all w self rest st')"

text \<open>
  \<^verbatim>\<open>Submission.submit\<close>; \<open>now\<close> is the clock's reading in the assertion.  Comparing
  an empty publication date with a date is a TypeError.  The queryset of recipients is
  lazy: it is evaluated when the loop starts.  The \<^verbatim>\<open>finally\<close> block runs on both
  exits of the loop, and an exception of its own save replaces the loop's.
\<close>

definition Submission_submit ::
  "world \<Rightarrow> datetime \<Rightarrow> Submission \<Rightarrow> state \<Rightarrow> (error + unit) \<times> Submission \<times> state" where
  "Submission_submit w now self st =
     (case publish_date self of
        None \<Rightarrow> (Inl TypeError, self, st)
      | Some d \<Rightarrow>
          if \<not> d < now then (Inl AssertionError, self, st)
          else
            (case Submission_save (self\<lparr>sending := True\<rparr>) st of
               (Inl e, self1, st1) \<Rightarrow> (Inl e, self1, st1)
             | (Inr _, self1, st1) \<Rightarrow>
                 (case send_all w self1
                         (SubscribedQuerySet_subscribed st1 (Submission_subscriptions self1 st1))
                         st1 of
                    (Inr _, st2) \<Rightarrow>
                      Submission_save (self1\<lparr>sent := True, sending := False\<rparr>) st2
                  | (Inl e, st2) \<Rightarrow>
                      (case Submission_save (self1\<lparr>sending := False\<rparr>) st2 of
                         (Inl e', self2, st3) \<Rightarrow> (Inl e', self2, st3)
                       | (Inr _, self2, st3) \<Rightarrow> (Inl e, self2, st3)))))"

section \<open>Bounce handling\<close>

subsection \<open>The VERP pattern\<close>

text \<open>
  \<^verbatim>\<open>verp_re = [^\+]+\+(?P<user>[^=]+)=(?P<domain>[^@]+)@.+\<close>, applied with
  \<^verbatim>\<open>match\<close>: anchored at the start of the string only.  Each repetition is followed
  by the one character its class excludes, so the match is found by reading up to that
  character; \<^verbatim>\<open>.\<close> is any character but a line feed.  The result is the pair of the
  groups \<^verbatim>\<open>user\<close> and \<^verbatim>\<open>domain\<close>.
\<close>

definition verp_re_match :: "string \<Rightarrow> (string \<times> string) option" where
  "verp_re_match s =
     (let p = takeWhile (\<lambda>c. c \<noteq> CHR ''+'') s;
          s1 = dropWhile (\<lambda>c. c \<noteq> CHR ''+'') s
      in if p = [] then None
         else case s1 of
           [] \<Rightarrow> None
         | _ # s2 \<Rightarrow>
             (let usr = takeWhile (\<lambda>c. c \<noteq> CHR ''='') s2;
                  s3 = dropWhile (\<lambda>c. c \<noteq> CHR ''='') s2
              in if usr = [] then None
                 else case s3 of
                   [] \<Rightarrow> None
                 | _ # s4 \<Rightarrow>
                     (let dmn = takeWhile (\<lambda>c. c \<noteq> CHR ''@'') s4;
                          s5 = dropWhile (\<lambda>c. c \<noteq> CHR ''@'') s4
                      in if dmn = [] then None
                         else case s5 of
                           [] \<Rightarrow> None
                         | _ # s6 \<Rightarrow>
                             (case s6 of
                                [] \<Rightarrow> None
                              | c # _ \<Rightarrow> if c = CHR 0x0A then None else Some (usr, dmn)))))"

text \<open>The decoded recipient: \<^verbatim>\<open>'%s@%s' % (res.group('user'), res.group('domain'))\<close>.\<close>

definition verp_decode :: "string \<Rightarrow> string option" where
  "verp_decode s =
     (case verp_re_match s of
        None \<Rightarrow> None
      | Some (usr, dmn) \<Rightarrow> Some (usr @ ''@'' @ dmn))"

text \<open>
  The form \<^verbatim>\<open>anything+user=domain@anything\<close> in the specification's words, read
  with every part non-empty.
\<close>

definition has_verp_form :: "string \<Rightarrow> bool" where
  "has_verp_form s =
     (\<exists>a u d b. s = a @ ''+'' @ u @ ''='' @ d @ ''@'' @ b
        \<and> a \<noteq> [] \<and> u \<noteq> [] \<and> d \<noteq> [] \<and> b \<noteq> [])"

subsection \<open>Strings and headers\<close>

text \<open>
  Case-insensitive comparison (\<^verbatim>\<open>iexact\<close>, header names).  Strings are byte
  strings here: only the ASCII letters have another case.
\<close>

definition lower_char :: "char \<Rightarrow> char" where
  "lower_char c =
     (case map_of (zip ''ABCDEFGHIJKLMNOPQRSTUVWXYZ'' ''abcdefghijklmnopqrstuvwxyz'') c of
        None \<Rightarrow> c
      | Some l \<Rightarrow> l)"

definition iexact :: "string \<Rightarrow> string \<Rightarrow> bool" where
  "iexact a b = (map lower_char a = map lower_char b)"

text \<open>\<^verbatim>\<open>msg[name]\<close> (\<open>None\<close> when the header is missing) and \<^verbatim>\<open>name in msg\<close>.\<close>

definition get_header :: "string \<Rightarrow> email \<Rightarrow> string option" where
  "get_header name msg =
     (case filter (\<lambda>kv. iexact (fst kv) name) (headers msg) of
        [] \<Rightarrow> None
      | kv # _ \<Rightarrow> Some (snd kv))"

definition has_header :: "string \<Rightarrow> email \<Rightarrow> bool" where
  "has_header name msg = (filter (\<lambda>kv. iexact (fst kv) name) (headers msg) \<noteq> [])"

text \<open>
  \<^verbatim>\<open>str.strip()\<close> (the white space of the ASCII range), \<^verbatim>\<open>s.startswith(p)\<close>,
  \<^verbatim>\<open>sub in s\<close>, and \<^verbatim>\<open>s.replace(sub, '')\<close>, which removes the occurrences of
  \<open>sub\<close> from left to right.
\<close>

definition is_space :: "char \<Rightarrow> bool" where
  "is_space c = (c \<in> set [CHR 0x09, CHR 0x0A, CHR 0x0B, CHR 0x0C, CHR 0x0D,
     CHR 0x1C, CHR 0x1D, CHR 0x1E, CHR 0x1F, CHR 0x20])"

definition strip :: "string \<Rightarrow> string" where
  "strip s = rev (dropWhile is_space (rev (dropWhile is_space s)))"

definition startswith :: "string \<Rightarrow> string \<Rightarrow> bool" where
  "startswith s p = (take (length p) s = p)"

fun contains :: "string \<Rightarrow> string \<Rightarrow> bool" where
  "contains sub [] = (sub = [])"
| "contains sub (c # cs) = (startswith (c # cs) sub \<or> contains sub cs)"

function remove_all :: "string \<Rightarrow> string \<Rightarrow> string" where
  "remove_all sub s =
     (if sub = [] \<or> s = [] then s
      else if startswith s sub then remove_all sub (drop (length sub) s)
      else hd s # remove_all sub (tl s))"
  by pat_completeness auto
termination
  by (relation "measure (\<lambda>(sub, s). length s)") auto

subsection \<open>Recovering address and status\<close>

text \<open>\<^verbatim>\<open>Message.walk\<close>: the part itself, then the walk of each sub-part in order.\<close>

fun walk :: "email \<Rightarrow> email list" where
  "walk (Email h c ps) = Email h c ps # concat (map walk ps)"

text \<open>
  The body of the inner loop of \<^verbatim>\<open>check_bounces\<close> for one sub-part: the address is
  looked for only while none is known, the status is overwritten whenever the sub-part
  has one.
\<close>

definition subpart_fields :: "email \<Rightarrow> string option \<Rightarrow> string option \<Rightarrow> string option \<times> string option" where
  "subpart_fields subpart addr status =
     (let addr1 =
        (if \<not> truthy addr then
           (let addr2 =
              (if has_header ''Original-Recipient'' subpart
                 then map_option strip (get_header ''Original-Recipient'' subpart)
               else if has_header ''Final-Recipient'' subpart
                 then map_option strip (get_header ''Final-Recipient'' subpart)
               else addr)
            in case addr2 of
                 None \<Rightarrow> addr2
               | Some a \<Rightarrow>
                   if a \<noteq> [] \<and> contains ''rfc822;'' a then Some (remove_all ''rfc822;'' a)
                   else addr2)
         else addr);
          status1 = (if has_header ''Status'' subpart then get_header ''Status'' subpart
                     else status)
      in (addr1, status1))"

fun scan_subparts :: "email list \<Rightarrow> string option \<Rightarrow> string option \<Rightarrow> string option \<times> string option" where
  "scan_subparts [] addr status = (addr, status)"
| "scan_subparts (subpart # rest) addr status =
     (case subpart_fields subpart addr status of
        (addr1, status1) \<Rightarrow>
          if truthy addr1 \<and> truthy status1 then (addr1, status1)
          else scan_subparts rest addr1 status1)"

text \<open>
  The outer loop: only the first part of type \<^verbatim>\<open>message/delivery-status\<close> is
  scanned (\<^verbatim>\<open>break\<close> after it).
\<close>

definition scan_delivery_status :: "email \<Rightarrow> string option \<Rightarrow> string option \<times> string option" where
  "scan_delivery_status msgobj addr =
     (case filter (\<lambda>part. content_type part = ''message/delivery-status'') (walk msgobj) of
        [] \<Rightarrow> (addr, None)
      | part # _ \<Rightarrow> scan_subparts (walk part) addr None)"

text \<open>
  Lines 51 to 73 of \<^verbatim>\<open>check_bounces\<close>: \<^verbatim>\<open>verp_re.match(msgobj['To'])\<close> is
  applied to whatever the header lookup returns, and raises a TypeError on \<open>None\<close>.
\<close>

definition recover_addr_status :: "email \<Rightarrow> error + (string option \<times> string option)" where
  "recover_addr_status msgobj =
     (case get_header ''To'' msgobj of
        None \<Rightarrow> Inl TypeError
      | Some ndr_to \<Rightarrow> Inr (scan_delivery_status msgobj (verp_decode ndr_to)))"

subsection \<open>Recording bounces\<close>

definition MAILBOX_FULL :: string where
  "MAILBOX_FULL = ''5.2.2''"

text \<open>\<^verbatim>\<open>Q(user__email__iexact=addr) | Q(email_field__iexact=addr)\<close>.\<close>

definition matches_address :: "string \<Rightarrow> Subscription \<Rightarrow> bool" where
  "matches_address addr s =
     ((case user s of None \<Rightarrow> False | Some u \<Rightarrow> iexact (user_email u) addr)
      \<or> (case email_field s of None \<Rightarrow> False | Some e \<Rightarrow> iexact e addr))"

definition new_bounce :: "string \<Rightarrow> string \<Rightarrow> Subscription \<Rightarrow> Bounce" where
  "new_bounce status raw subscr =
     \<lparr>bounce_subscription = pk subscr,
      hard = (startswith status ''5'' \<and> status \<noteq> MAILBOX_FULL),
      status_code = status, content = raw\<rparr>"

definition create_bounces :: "string \<Rightarrow> string \<Rightarrow> string \<Rightarrow> state \<Rightarrow> state" where
  "create_bounces addr status raw st =
     st\<lparr>Bounce_objects := Bounce_objects st
          @ map (new_bounce status raw) (filter (matches_address addr) (Subscription_objects st))\<rparr>"

text \<open>\<^verbatim>\<open>conn.copy\<close> into the folder of past bounces, and the \<^verbatim>\<open>\Deleted\<close> flag.\<close>

definition move_aside :: "imap_message \<Rightarrow> state \<Rightarrow> (error + unit) \<times> state" where
  "move_aside im st =
     (case copy im of
        CopyRaises \<Rightarrow> (Inl IMAP4_error, st)
      | CopyNO \<Rightarrow> (Inr (), st)
      | CopyOK \<Rightarrow>
          (Inr (), st\<lparr>bounce_mailbox := (bounce_mailbox st)
             \<lparr>past_bounces := past_bounces (bounce_mailbox st) @ [im],
              deleted := deleted (bounce_mailbox st) @ [num im]\<rparr>\<rparr>))"

text \<open>The body of the loop over the inbox, for one message.\<close>

definition process_message :: "imap_message \<Rightarrow> state \<Rightarrow> (error + unit) \<times> state" where
  "process_message im st =
     (case fetch im of
        FetchRaises \<Rightarrow> (Inl IMAP4_error, st)
      | FetchEmpty \<Rightarrow> (Inr (), st)
      | Fetched raw msgobj \<Rightarrow>
          (case recover_addr_status msgobj of
             Inl e \<Rightarrow> (Inl e, st)
           | Inr (addr, status) \<Rightarrow>
               if \<not> truthy addr \<or> \<not> truthy status then (Inr (), st)
               else
                 (case addr of
                    None \<Rightarrow> (Inr (), st)
                  | Some a \<Rightarrow>
                      (case status of
                         None \<Rightarrow> (Inr (), st)
                       | Some s \<Rightarrow> move_aside im (create_bounces a s raw st)))))"

fun scan_inbox :: "imap_message list \<Rightarrow> state \<Rightarrow> (error + unit) \<times> state" where
  "scan_inbox [] st = (Inr (), st)"
| "scan_inbox (im # rest) st =
     (case process_message im st of
        (Inl e, st') \<Rightarrow> (Inl e, st')
      | (Inr _, st') \<Rightarrow> scan_inbox rest st')"

text \<open>\<^verbatim>\<open>conn.expunge()\<close>: the messages flagged as deleted leave the inbox.\<close>

definition expunge :: "state \<Rightarrow> state" where
  "expunge st =
     st\<lparr>bounce_mailbox := (bounce_mailbox st)
          \<lparr>inbox := filter (\<lambda>im. num im \<notin> set (deleted (bounce_mailbox st)))
                     (inbox (bounce_mailbox st)),
           deleted := []\<rparr>\<rparr>"

text \<open>
  \<^verbatim>\<open>check_bounces\<close>.  Without a bounce account nothing happens.  An IMAP error is
  caught and logged and ends the scan; any other exception leaves the function.
\<close>

definition check_bounces :: "world \<Rightarrow> state \<Rightarrow> (error + unit) \<times> state" where
  "check_bounces w st =
     (if \<not> BOUNCE_ACCOUNT w then (Inr (), st)
      else if login_raises w then (Inr (), st\<lparr>trace := trace st @ [ErrorLogged IMAP4_error]\<rparr>)
      else
        (case scan_inbox (inbox (bounce_mailbox st)) st of
           (Inl e, st') \<Rightarrow>
             if e = IMAP4_error then (Inr (), st'\<lparr>trace := trace st' @ [ErrorLogged e]\<rparr>)
             else (Inl e, st')
         | (Inr _, st') \<Rightarrow> (Inr (), expunge st')))"

section \<open>The queue\<close>




section \<open>Traces\<close>

text \<open>The calls recorded in a trace.\<close>

fun is_call :: "event \<Rightarrow> bool" where
  "is_call (SubmitCalled _) = True"
| "is_call CheckBouncesCalled = True"
| "is_call _ = False"


section \<open>Concrete objects\<close>

text \<open>The objects, states and worlds of the closed instances below.\<close>

definition empty_mailbox :: mailbox where
  "empty_mailbox = \<lparr>inbox = [], past_bounces = [], deleted = []\<rparr>"

definition empty_state :: state where
  "empty_state = \<lparr>Newsletter_objects = [], Subscription_objects = [], Bounce_objects = [],
     Message_objects = [], Submission_objects = [], bounce_mailbox = empty_mailbox,
     trace = []\<rparr>"


definition new_subscription :: Subscription where
  "new_subscription = \<lparr>pk = None, user = None, name_field = None,
     email_field = Some ''bob@example.org'', newsletter = Some 1, subscribed = False,
     subscribe_date = None, unsubscribed = False, unsubscribe_date = None\<rparr>"

definition subscribed_bob :: Subscription where
  "subscribed_bob = new_subscription\<lparr>pk := Some 1, subscribed := True,
     subscribe_date := Some 10\<rparr>"

definition state_with_bob :: state where
  "state_with_bob = empty_state\<lparr>Subscription_objects := [subscribed_bob]\<rparr>"




text \<open>A world in which only the transport to subscriber 2 fails.\<close>

definition world1 :: world where
  "world1 = \<lparr>render_raises = (\<lambda>m s. False), send_raises = (\<lambda>m s. pk s = Some 2),
     clock = (\<lambda>k. 10 + int k), BOUNCE_ACCOUNT = False, login_raises = False\<rparr>"


text \<open>
  A delivery status notification without \<^verbatim>\<open>To\<close> header, the mailbox holding it, and
  a world with a bounce account.
\<close>

definition bounce_without_To :: email where
  "bounce_without_To =
     Email [(''From'', ''MAILER-DAEMON@mx.example.net''), (''Subject'', ''Undelivered mail'')]
       ''multipart/report''
       [Email [] ''text/plain'' [],
        Email [] ''message/delivery-status''
          [Email [(''Reporting-MTA'', ''dns; mx.example.net'')] ''text/plain'' [],
           Email [(''Original-Recipient'', ''rfc822;bob@example.org''),
                  (''Final-Recipient'', ''rfc822;robert@example.org''),
                  (''Action'', ''failed''), (''Status'', ''5.1.1'')] ''text/plain'' []]]"

definition bounce_with_To :: email where
  "bounce_with_To =
     Email [(''To'', ''bounce+bob=example.org@example.net''), (''Subject'', ''Mailbox full'')]
       ''multipart/report''
       [Email [] ''message/delivery-status''
          [Email [(''Final-Recipient'', ''rfc822;bob@example.org''),
                  (''Status'', ''5.2.2'')] ''text/plain'' []]]"

definition world2 :: world where
  "world2 = world1\<lparr>BOUNCE_ACCOUNT := True\<rparr>"

definition state2 :: state where
  "state2 = state_with_bob\<lparr>bounce_mailbox :=
     \<lparr>inbox = [\<lparr>num = 1, fetch = Fetched ''raw text 1'' bounce_without_To, copy = CopyOK\<rparr>],
      past_bounces = [], deleted = []\<rparr>\<rparr>"

definition mailbox_full_notice :: imap_message where
  "mailbox_full_notice = \<lparr>num = 2, fetch = Fetched ''raw text 2'' bounce_with_To, copy = CopyOK\<rparr>"








definition plain_reply :: imap_message where
  "plain_reply = \<lparr>num = 3,
     fetch = Fetched ''raw text 3''
       (Email [(''To'', ''bounce@example.net''), (''Subject'', ''Out of office'')]
          ''text/plain'' []),
     copy = CopyOK\<rparr>"

definition state3 :: state where
  "state3 = state_with_bob\<lparr>bounce_mailbox :=
     \<lparr>inbox = [mailbox_full_notice], past_bounces = [], deleted = []\<rparr>\<rparr>"

section \<open>Properties of the suppression query\<close>

lemma sum_case_when_hard_nonneg: "0 \<le> sum_list (map case_when_hard rows)"
  by (induction rows) (auto simp: case_when_hard_def split: option.splits)

lemma sum_case_when_hard_zero:
  "sum_list (map (\<lambda>b. case_when_hard (Some b)) bs) = 0 \<longleftrightarrow> filter hard bs = []"
proof (induction bs)
  case Nil
  show ?case by simp
next
  case (Cons b bs)
  have nonneg: "0 \<le> sum_list (map (\<lambda>b. case_when_hard (Some b)) bs)"
    using sum_case_when_hard_nonneg [of "map Some bs"] by (simp add: comp_def)
  show ?case
  proof (cases "hard b")
    case True
    with nonneg show ?thesis by (simp add: case_when_hard_def)
  next
    case False
    with Cons show ?thesis by (simp add: case_when_hard_def)
  qed
qed

lemma num_hard_bounces_zero: "num_hard_bounces st s = 0 \<longleftrightarrow> hard_bounces_of st s = []"
proof -
  let ?js = "filter (\<lambda>b. pk s \<noteq> None \<and> bounce_subscription b = pk s) (Bounce_objects st)"
  have hb: "hard_bounces_of st s = filter hard ?js"
    by (simp add: hard_bounces_of_def conj_commute conj_left_commute)
  show ?thesis
  proof (cases ?js)
    case Nil
    then show ?thesis
      unfolding hb by (simp add: num_hard_bounces_def bounce_join_def case_when_hard_def)
  next
    case (Cons b bs)
    then have "num_hard_bounces st s = sum_list (map (\<lambda>b. case_when_hard (Some b)) ?js)"
      by (simp add: num_hard_bounces_def bounce_join_def comp_def)
    then show ?thesis
      unfolding hb by (simp only: sum_case_when_hard_zero)
  qed
qed

text \<open>
  C4.  The suppression query keeps exactly the subscriptions of the queryset that are
  subscribed and have no hard bounce row; for a newsletter it returns exactly the
  newsletter's subscriptions of that kind.  Soft bounce rows, however many, never
  exclude a subscription, and one hard bounce row always does.
\<close>

theorem subscribed_suppression:
  "SubscribedQuerySet_subscribed st qs
     = filter (\<lambda>s. subscribed s \<and> hard_bounces_of st s = []) qs
   \<and> Newsletter_get_subscriptions n st
     = filter (\<lambda>s. (newsletter_pk n \<noteq> None \<and> newsletter s = newsletter_pk n)
                   \<and> subscribed s \<and> hard_bounces_of st s = [])
         (Subscription_objects st)
   \<and> (s \<in> set (SubscribedQuerySet_subscribed st qs)
        \<longleftrightarrow> s \<in> set qs \<and> subscribed s \<and> length (hard_bounces_of st s) = 0)"
  by (auto simp: SubscribedQuerySet_subscribed_def Newsletter_get_subscriptions_def
      num_hard_bounces_zero)

section \<open>Properties of the persistence layer\<close>

lemma fresh_pk_notin: "Some (fresh_pk ks) \<notin> set ks"
proof
  assume a: "Some (fresh_pk ks) \<in> set ks"
  then have "fresh_pk ks \<in> set (0 # map (\<lambda>k. case k of None \<Rightarrow> 0 | Some n \<Rightarrow> n) ks)"
    by force
  then have "fresh_pk ks \<le> Max (set (0 # map (\<lambda>k. case k of None \<Rightarrow> 0 | Some n \<Rightarrow> n) ks))"
    by (intro Max_ge) auto
  then show False by (simp add: fresh_pk_def)
qed

lemma filter_replace:
  "P obj \<Longrightarrow> filter P (map (\<lambda>r. if P r then obj else r) rows) = map (\<lambda>_. obj) (filter P rows)"
  by (induction rows) auto

lemma replace_same:
  "filter P rows = [obj] \<Longrightarrow> map (\<lambda>r. if P r then obj else r) rows = rows"
proof -
  assume a: "filter P rows = [obj]"
  have "\<And>r. r \<in> set rows \<Longrightarrow> P r \<Longrightarrow> r = obj"
  proof -
    fix r assume "r \<in> set rows" "P r"
    then have "r \<in> set (filter P rows)" by simp
    with a show "r = obj" by simp
  qed
  then show ?thesis by (induction rows) auto
qed

lemma Model_save_sync:
  assumes "Model_save pk (\<lambda>k s. s\<lparr>pk := Some k\<rparr>) obj rows = (obj', rows')"
    and "pk obj = None \<or> length (filter (\<lambda>r. pk r = pk obj) rows) = 1"
  shows "filter (\<lambda>r. pk r = pk obj') rows' = [obj'] \<and> pk obj' \<noteq> None
     \<and> (pk obj \<noteq> None \<longrightarrow> obj' = obj)
     \<and> (pk obj = None \<longrightarrow> obj' = obj\<lparr>pk := Some (fresh_pk (map pk rows))\<rparr>)"
proof (cases "pk obj")
  case None
  let ?k = "fresh_pk (map pk rows)"
  from None assms(1) have o: "obj' = obj\<lparr>pk := Some ?k\<rparr>" and r: "rows' = rows @ [obj']"
    by (auto simp: Model_save_def Let_def)
  have "filter (\<lambda>r. pk r = Some ?k) rows = []"
    using fresh_pk_notin [of "map pk rows"] by (force simp: filter_empty_conv image_iff)
  with o r show ?thesis using None by simp
next
  case (Some k)
  with assms(2) have one: "length (filter (\<lambda>r. pk r = Some k) rows) = 1" by simp
  then have ne: "filter (\<lambda>r. pk r = Some k) rows \<noteq> []" by auto
  from Some assms(1) ne have o: "obj' = obj"
    and r: "rows' = map (\<lambda>r. if pk r = Some k then obj else r) rows"
    by (auto simp: Model_save_def)
  have "filter (\<lambda>r. pk r = Some k) rows' = map (\<lambda>_. obj) (filter (\<lambda>r. pk r = Some k) rows)"
    unfolding r using Some by (intro filter_replace) simp
  also from one obtain x where "filter (\<lambda>r. pk r = Some k) rows = [x]"
    by (cases "filter (\<lambda>r. pk r = Some k) rows") auto
  finally show ?thesis using o Some by simp
qed







section \<open>Properties of the subscription state machine\<close>

lemma subscribe_flags:
  "subscribed (Subscription_subscribe now s)" "\<not> unsubscribed (Subscription_subscribe now s)"
  "\<not> subscribed (Subscription_unsubscribe now s)" "unsubscribed (Subscription_unsubscribe now s)"
  by (simp_all add: Subscription_subscribe_def Subscription_unsubscribe_def)

lemma Subscription_save_identity_fails:
  "\<not> exactly_one_identity s \<Longrightarrow> Subscription_save now s st = (Inl AssertionError, s, st)"
  by (cases "user s"; cases "truthy (email_field s)")
    (simp_all add: Subscription_save_def exactly_one_identity_def)

lemma Subscription_save_new:
  "exactly_one_identity s \<Longrightarrow> \<not> truthy_pk (pk s) \<Longrightarrow>
   Subscription_save now s st =
     (let self1 = (if subscribed s then Subscription_subscribe now s
                   else if unsubscribed s then Subscription_unsubscribe now s
                   else s)
      in case Subscription_super_save self1 st of (self2, st') \<Rightarrow> (Inr (), self2, st'))"
  by (cases "user s"; cases "truthy (email_field s)")
    (simp_all add: Subscription_save_def exactly_one_identity_def)

lemma Subscription_save_stored:
  "exactly_one_identity s \<Longrightarrow> truthy_pk (pk s) \<Longrightarrow>
   filter (\<lambda>r. pk r = pk s) (Subscription_objects st) = [row] \<Longrightarrow>
   Subscription_save now s st =
     (let self1 =
        (if (subscribed s \<and> \<not> subscribed row) \<or> (unsubscribed row \<and> \<not> unsubscribed s)
           then Subscription_subscribe now s
         else if (unsubscribed s \<and> \<not> unsubscribed row) \<or> (subscribed row \<and> \<not> subscribed s)
           then Subscription_unsubscribe now s
         else s)
      in case Subscription_super_save self1 st of (self2, st') \<Rightarrow> (Inr (), self2, st'))"
  by (cases "user s"; cases "truthy (email_field s)")
    (auto simp add: Subscription_save_def exactly_one_identity_def Let_def subscribe_flags)

lemma Subscription_save_missing:
  "exactly_one_identity s \<Longrightarrow> truthy_pk (pk s) \<Longrightarrow>
   length (filter (\<lambda>r. pk r = pk s) (Subscription_objects st)) \<noteq> 1 \<Longrightarrow>
   Subscription_save now s st = (Inl AssertionError, s, st)"
  by (cases "user s"; cases "truthy (email_field s)")
    (auto simp add: Subscription_save_def exactly_one_identity_def split: list.splits)

lemma Subscription_save_success:
  assumes "Subscription_save now s st = (Inr (), s1, st1)"
  shows "\<exists>sx. (sx = Subscription_subscribe now s \<or> sx = Subscription_unsubscribe now s \<or> sx = s)
     \<and> exactly_one_identity s
     \<and> (truthy_pk (pk s) \<longrightarrow> length (filter (\<lambda>r. pk r = pk s) (Subscription_objects st)) = 1)
     \<and> Subscription_super_save sx st = (s1, st1)"
proof -
  have idok: "exactly_one_identity s"
    using assms Subscription_save_identity_fails [of s now st] by auto
  show ?thesis
  proof (cases "truthy_pk (pk s)")
    case True
    have one: "length (filter (\<lambda>r. pk r = pk s) (Subscription_objects st)) = 1"
      using assms Subscription_save_missing [OF idok True, of st now] by auto
    then obtain row where row: "filter (\<lambda>r. pk r = pk s) (Subscription_objects st) = [row]"
      by (cases "filter (\<lambda>r. pk r = pk s) (Subscription_objects st)") auto
    from assms show ?thesis
      unfolding Subscription_save_stored [OF idok True row] Let_def using idok one
      by (auto split: if_splits prod.splits)
  next
    case False
    from assms show ?thesis
      unfolding Subscription_save_new [OF idok False] Let_def using idok False
      by (auto split: if_splits prod.splits)
  qed
qed

lemma Subscription_helper_fields:
  "sx = Subscription_subscribe now s \<or> sx = Subscription_unsubscribe now s \<or> sx = s
   \<Longrightarrow> pk sx = pk s \<and> user sx = user s \<and> email_field sx = email_field s"
  by (auto simp: Subscription_subscribe_def Subscription_unsubscribe_def)

lemma Subscription_save_sync:
  assumes "Subscription_save now s st = (Inr (), s1, st1)" and "pk s \<noteq> Some 0"
  shows "filter (\<lambda>r. pk r = pk s1) (Subscription_objects st1) = [s1]
     \<and> truthy_pk (pk s1) \<and> exactly_one_identity s1"
proof -
  from Subscription_save_success [OF assms(1)] obtain sx where
    sx: "sx = Subscription_subscribe now s \<or> sx = Subscription_unsubscribe now s \<or> sx = s"
    and idok: "exactly_one_identity s"
    and one: "truthy_pk (pk s) \<longrightarrow> length (filter (\<lambda>r. pk r = pk s) (Subscription_objects st)) = 1"
    and sv: "Subscription_super_save sx st = (s1, st1)"
    by blast
  from Subscription_helper_fields [OF sx] have f: "pk sx = pk s" "user sx = user s" "email_field sx = email_field s"
    by simp_all
  obtain rows' where ms: "Model_save pk (\<lambda>k s. s\<lparr>pk := Some k\<rparr>) sx (Subscription_objects st) = (s1, rows')"
    and st1: "st1 = st\<lparr>Subscription_objects := rows'\<rparr>"
    using sv by (auto simp: Subscription_super_save_def split: prod.splits)
  have pre: "pk sx = None \<or> length (filter (\<lambda>r. pk r = pk sx) (Subscription_objects st)) = 1"
    using one assms(2) f(1) by (cases "pk s") (auto simp: truthy_pk_def)
  from Model_save_sync [OF ms pre]
  have a: "filter (\<lambda>r. pk r = pk s1) rows' = [s1]" and b: "pk sx \<noteq> None \<longrightarrow> s1 = sx"
    and c: "pk sx = None \<longrightarrow> s1 = sx\<lparr>pk := Some (fresh_pk (map pk (Subscription_objects st)))\<rparr>"
    by simp_all
  have t: "truthy_pk (pk s1)"
    using b c assms(2) f(1) by (cases "pk s") (auto simp: truthy_pk_def fresh_pk_def)
  have i: "exactly_one_identity s1"
    using b c idok f by (cases "pk sx") (auto simp: exactly_one_identity_def)
  from a t i st1 show ?thesis by simp
qed

lemma Subscription_update_noop:
  assumes "filter (\<lambda>r. pk r = pk s1) (Subscription_objects st1) = [s1]"
    and "truthy_pk (pk s1)" and "exactly_one_identity s1" and "subscribed s1"
  shows "Subscription_update now ''subscribe'' s1 st1 = (Inr (), s1, st1)"
proof -
  have s: "s1\<lparr>subscribed := True\<rparr> = s1" using assms(4) by simp
  obtain k where k: "pk s1 = Some k" using assms(2) by (cases "pk s1") (auto simp: truthy_pk_def)
  have ne: "filter (\<lambda>r. pk r = Some k) (Subscription_objects st1) \<noteq> []" using assms(1) k by simp
  have "map (\<lambda>r. if pk r = Some k then s1 else r) (Subscription_objects st1) = Subscription_objects st1"
    using assms(1) k by (intro replace_same) simp
  then have sv: "Subscription_super_save s1 st1 = (s1, st1)"
    using k ne by (simp add: Subscription_super_save_def Model_save_def)
  have "Subscription_save now s1 st1 = (Inr (), s1, st1)"
    using assms sv by (simp add: Subscription_save_stored [OF assms(3) assms(2) assms(1)])
  then show ?thesis by (simp add: Subscription_update_def s)
qed




text \<open>
  C9.  When a \<^verbatim>\<open>subscribe\<close> request has been saved and has left the subscription
  subscribed, a second \<^verbatim>\<open>subscribe\<close> request changes nothing: the object and the
  stored rows (so the subscribe date and both flags) are as the first request left them,
  whatever the clock reads.  Primary keys handed out by the database are positive.
\<close>

theorem subscribe_twice_noop:
  assumes "Subscription_update now1 ''subscribe'' s st = (Inr (), s1, st1)"
    and "subscribed s1"
    and "pk s \<noteq> Some 0"
  shows "Subscription_update now2 ''subscribe'' s1 st1 = (Inr (), s1, st1)"
proof -
  from assms(1) have "Subscription_save now1 (s\<lparr>subscribed := True\<rparr>) st = (Inr (), s1, st1)"
    by (simp add: Subscription_update_def)
  from Subscription_save_sync [OF this] assms(3)
  have "filter (\<lambda>r. pk r = pk s1) (Subscription_objects st1) = [s1]"
    and "truthy_pk (pk s1)" and "exactly_one_identity s1"
    by simp_all
  then show ?thesis using assms(2) by (rule Subscription_update_noop)
qed

theorem subscribe_twice_noop_witness:
  "Subscription_update 20 ''subscribe'' subscribed_bob state_with_bob
     = (Inr (), subscribed_bob, state_with_bob)"
proof -
  have first: "Subscription_update 10 ''subscribe'' new_subscription empty_state
     = (Inr (), subscribed_bob, state_with_bob)"
    by (simp add: Subscription_update_def Subscription_save_def Subscription_super_save_def
        Model_save_def fresh_pk_def Subscription_subscribe_def new_subscription_def
        empty_state_def subscribed_bob_def state_with_bob_def truthy_def truthy_pk_def
        Let_def)
  have "subscribed subscribed_bob" and "pk new_subscription \<noteq> Some 0"
    by (simp_all add: subscribed_bob_def new_subscription_def)
  with first show ?thesis by (rule subscribe_twice_noop)
qed

section \<open>Properties of messages\<close>





section \<open>Properties of the submission engine\<close>











lemma submit_without_date:
  "publish_date self = None \<Longrightarrow> Submission_submit w now self st = (Inl TypeError, self, st)"
  by (simp add: Submission_submit_def)



section \<open>Properties of bounce handling\<close>

lemma split_at:
  "c \<notin> set p \<Longrightarrow> takeWhile (\<lambda>x. x \<noteq> c) (p @ c # r) = p
     \<and> dropWhile (\<lambda>x. x \<noteq> c) (p @ c # r) = c # r"
  by (induction p) auto

lemma split_found:
  assumes "dropWhile (\<lambda>x. x \<noteq> c) s = y # r"
  shows "y = c \<and> s = takeWhile (\<lambda>x. x \<noteq> c) s @ c # r
     \<and> c \<notin> set (takeWhile (\<lambda>x. x \<noteq> c) s)"
proof -
  have y: "y = c"
    using hd_dropWhile [of "\<lambda>x. x \<noteq> c" s] assms by simp
  have "s = takeWhile (\<lambda>x. x \<noteq> c) s @ dropWhile (\<lambda>x. x \<noteq> c) s" by simp
  with assms y have s: "s = takeWhile (\<lambda>x. x \<noteq> c) s @ c # r" by simp
  have "c \<notin> set (takeWhile (\<lambda>x. x \<noteq> c) s)"
    using set_takeWhileD [of c "\<lambda>x. x \<noteq> c" s] by blast
  with y s show ?thesis by blast
qed

lemma verp_re_match_iff:
  "verp_re_match s = Some (u, d) \<longleftrightarrow>
     (\<exists>p c rest. s = p @ CHR ''+'' # u @ CHR ''='' # d @ CHR ''@'' # c # rest
        \<and> p \<noteq> [] \<and> CHR ''+'' \<notin> set p \<and> u \<noteq> [] \<and> CHR ''='' \<notin> set u
        \<and> d \<noteq> [] \<and> CHR ''@'' \<notin> set d \<and> c \<noteq> CHR 0x0A)"
  (is "?L \<longleftrightarrow> ?R")
proof
  assume ?L
  let ?p = "takeWhile (\<lambda>c. c \<noteq> CHR ''+'') s"
  from \<open>?L\<close> have p: "?p \<noteq> []"
    by (auto simp: verp_re_match_def Let_def split: if_splits)
  from \<open>?L\<close> p obtain y1 s2 where d1: "dropWhile (\<lambda>c. c \<noteq> CHR ''+'') s = y1 # s2"
    by (auto simp: verp_re_match_def Let_def split: if_splits list.splits)
  let ?u = "takeWhile (\<lambda>c. c \<noteq> CHR ''='') s2"
  from \<open>?L\<close> p d1 have u: "?u \<noteq> []"
    by (auto simp: verp_re_match_def Let_def split: if_splits)
  from \<open>?L\<close> p d1 u obtain y2 s4 where d2: "dropWhile (\<lambda>c. c \<noteq> CHR ''='') s2 = y2 # s4"
    by (auto simp: verp_re_match_def Let_def split: if_splits list.splits)
  let ?d = "takeWhile (\<lambda>c. c \<noteq> CHR ''@'') s4"
  from \<open>?L\<close> p d1 u d2 have d: "?d \<noteq> []"
    by (auto simp: verp_re_match_def Let_def split: if_splits)
  from \<open>?L\<close> p d1 u d2 d obtain y3 s6 where d3: "dropWhile (\<lambda>c. c \<noteq> CHR ''@'') s4 = y3 # s6"
    by (auto simp: verp_re_match_def Let_def split: if_splits list.splits)
  from \<open>?L\<close> p d1 u d2 d d3 obtain c rest where s6: "s6 = c # rest" "c \<noteq> CHR 0x0A"
    and ud: "u = ?u" "d = ?d"
    by (auto simp: verp_re_match_def Let_def split: if_splits list.splits)
  note a = split_found [OF d1] and b = split_found [OF d2] and e = split_found [OF d3]
  have "s = ?p @ CHR ''+'' # ?u @ CHR ''='' # ?d @ CHR ''@'' # c # rest"
    using a b e s6(1) by metis
  with p u d a b e s6(2) ud show ?R by blast
next
  assume ?R
  then obtain p c rest where s: "s = p @ CHR ''+'' # u @ CHR ''='' # d @ CHR ''@'' # c # rest"
    and c: "p \<noteq> []" "CHR ''+'' \<notin> set p" "u \<noteq> []" "CHR ''='' \<notin> set u"
      "d \<noteq> []" "CHR ''@'' \<notin> set d" "c \<noteq> CHR 0x0A"
    by blast
  show ?L
    unfolding verp_re_match_def s
    using c split_at [OF c(2)] split_at [OF c(4)] split_at [OF c(6)]
    by (simp add: Let_def)
qed


lemma verp_decode_form: "verp_decode s = Some r \<Longrightarrow> has_verp_form s"
proof -
  assume "verp_decode s = Some r"
  then obtain u d where "verp_re_match s = Some (u, d)"
    by (auto simp: verp_decode_def split: option.splits)
  then obtain p c rest where
    "s = p @ CHR ''+'' # u @ CHR ''='' # d @ CHR ''@'' # c # rest"
    "p \<noteq> []" "u \<noteq> []" "d \<noteq> []"
    unfolding verp_re_match_iff by blast
  then have "s = p @ ''+'' @ u @ ''='' @ d @ ''@'' @ (c # rest)
     \<and> p \<noteq> [] \<and> u \<noteq> [] \<and> d \<noteq> [] \<and> c # rest \<noteq> []"
    by simp
  then show ?thesis unfolding has_verp_form_def by blast
qed

text \<open>
  C3.  Decoding a string succeeds exactly when it is \<open>p+u=d@c\<dots>\<close> with \<open>p\<close> non-empty
  and free of \<open>+\<close>, \<open>u\<close> non-empty and free of \<open>=\<close>, \<open>d\<close> non-empty and free of
  \<open>@\<close>, and \<open>c\<close> a character other than a line feed; the result is then \<open>u@d\<close>.
  A string without the pattern \<open>+\<dots>=\<dots>@\<close> decodes to \<open>None\<close>; decoding is a total
  function of the string and raises nothing.
\<close>

theorem verp_decode_exact:
  "(verp_decode s = Some r \<longleftrightarrow>
      (\<exists>p u d c rest. s = p @ ''+'' @ u @ ''='' @ d @ ''@'' @ c # rest
         \<and> p \<noteq> [] \<and> CHR ''+'' \<notin> set p \<and> u \<noteq> [] \<and> CHR ''='' \<notin> set u
         \<and> d \<noteq> [] \<and> CHR ''@'' \<notin> set d \<and> c \<noteq> CHR 0x0A
         \<and> r = u @ ''@'' @ d))
   \<and> (\<not> has_verp_form s \<longrightarrow> verp_decode s = None)"
proof (intro conjI impI iffI)
  assume "verp_decode s = Some r"
  then obtain u d where m: "verp_re_match s = Some (u, d)" and r: "r = u @ ''@'' @ d"
    by (auto simp: verp_decode_def split: option.splits)
  from m obtain p c rest where
    "s = p @ CHR ''+'' # u @ CHR ''='' # d @ CHR ''@'' # c # rest"
    "p \<noteq> []" "CHR ''+'' \<notin> set p" "u \<noteq> []" "CHR ''='' \<notin> set u"
    "d \<noteq> []" "CHR ''@'' \<notin> set d" "c \<noteq> CHR 0x0A"
    unfolding verp_re_match_iff by blast
  with r have "s = p @ ''+'' @ u @ ''='' @ d @ ''@'' @ c # rest
         \<and> p \<noteq> [] \<and> CHR ''+'' \<notin> set p \<and> u \<noteq> [] \<and> CHR ''='' \<notin> set u
         \<and> d \<noteq> [] \<and> CHR ''@'' \<notin> set d \<and> c \<noteq> CHR 0x0A
         \<and> r = u @ ''@'' @ d"
    by simp
  then show "\<exists>p u d c rest. s = p @ ''+'' @ u @ ''='' @ d @ ''@'' @ c # rest
         \<and> p \<noteq> [] \<and> CHR ''+'' \<notin> set p \<and> u \<noteq> [] \<and> CHR ''='' \<notin> set u
         \<and> d \<noteq> [] \<and> CHR ''@'' \<notin> set d \<and> c \<noteq> CHR 0x0A
         \<and> r = u @ ''@'' @ d"
    by blast
next
  assume "\<exists>p u d c rest. s = p @ ''+'' @ u @ ''='' @ d @ ''@'' @ c # rest
         \<and> p \<noteq> [] \<and> CHR ''+'' \<notin> set p \<and> u \<noteq> [] \<and> CHR ''='' \<notin> set u
         \<and> d \<noteq> [] \<and> CHR ''@'' \<notin> set d \<and> c \<noteq> CHR 0x0A
         \<and> r = u @ ''@'' @ d"
  then obtain p u d c rest where
    s: "s = p @ CHR ''+'' # u @ CHR ''='' # d @ CHR ''@'' # c # rest"
    and c: "p \<noteq> []" "CHR ''+'' \<notin> set p" "u \<noteq> []" "CHR ''='' \<notin> set u"
    "d \<noteq> []" "CHR ''@'' \<notin> set d" "c \<noteq> CHR 0x0A"
    and r: "r = u @ ''@'' @ d"
    by auto
  from s c have "verp_re_match s = Some (u, d)"
    unfolding verp_re_match_iff by blast
  with r show "verp_decode s = Some r" by (simp add: verp_decode_def)
next
  assume n: "\<not> has_verp_form s"
  show "verp_decode s = None"
  proof (cases "verp_decode s")
    case None
    then show ?thesis .
  next
    case (Some r)
    with verp_decode_form n show ?thesis by blast
  qed
qed

lemma has_verp_form_plus: "has_verp_form s \<Longrightarrow> CHR ''+'' \<in> set s"
  by (auto simp: has_verp_form_def)

theorem verp_decode_exact_witness:
  "verp_decode ''bounce+bob=example.org@example.net'' = Some ''bob@example.org''
   \<and> verp_decode ''bob@example.org'' = None"
proof -
  have "\<exists>p u d c rest. ''bounce+bob=example.org@example.net''
           = p @ ''+'' @ u @ ''='' @ d @ ''@'' @ c # rest
         \<and> p \<noteq> [] \<and> CHR ''+'' \<notin> set p \<and> u \<noteq> [] \<and> CHR ''='' \<notin> set u
         \<and> d \<noteq> [] \<and> CHR ''@'' \<notin> set d \<and> c \<noteq> CHR 0x0A
         \<and> ''bob@example.org'' = u @ ''@'' @ d"
    by (intro exI [of _ "''bounce''"] exI [of _ "''bob''"] exI [of _ "''example.org''"]
        exI [of _ "CHR ''e''"] exI [of _ "''xample.net''"]) simp
  then have a: "verp_decode ''bounce+bob=example.org@example.net'' = Some ''bob@example.org''"
    using verp_decode_exact [of "''bounce+bob=example.org@example.net''" "''bob@example.org''"]
    by blast
  have "\<not> has_verp_form ''bob@example.org''"
    using has_verp_form_plus [of "''bob@example.org''"] by auto
  then have b: "verp_decode ''bob@example.org'' = None"
    using verp_decode_exact [of "''bob@example.org''"] by blast
  from a b show ?thesis by simp
qed

theorem verp_decode_form_counterexample:
  "has_verp_form ''++bob=example.org@example.net''
   \<and> verp_decode ''++bob=example.org@example.net'' = None"
proof
  have "''++bob=example.org@example.net''
      = ''+'' @ ''+'' @ ''bob'' @ ''='' @ ''example.org'' @ ''@'' @ ''example.net''
    \<and> ''+'' \<noteq> [] \<and> ''bob'' \<noteq> [] \<and> ''example.org'' \<noteq> [] \<and> ''example.net'' \<noteq> []"
    by simp
  then show "has_verp_form ''++bob=example.org@example.net''"
    unfolding has_verp_form_def by blast
  show "verp_decode ''++bob=example.org@example.net'' = None"
    by (simp add: verp_decode_def verp_re_match_def)
qed

lemma move_aside_frame:
  "move_aside im st = (r, st') \<Longrightarrow>
   Bounce_objects st' = Bounce_objects st \<and> Subscription_objects st' = Subscription_objects st
   \<and> trace st' = trace st"
  by (auto simp: move_aside_def split: copy_result.splits)

lemma process_message_bounces:
  assumes "process_message im st = (r, st')"
  shows "\<exists>new. Bounce_objects st' = Bounce_objects st @ new
     \<and> (\<forall>b\<in>set new. hard b = (startswith (status_code b) ''5'' \<and> status_code b \<noteq> ''5.2.2''))
     \<and> Subscription_objects st' = Subscription_objects st \<and> trace st' = trace st"
proof (cases "\<exists>raw msgobj a s. fetch im = Fetched raw msgobj
    \<and> recover_addr_status msgobj = Inr (Some a, Some s) \<and> a \<noteq> [] \<and> s \<noteq> []")
  case True
  then obtain raw msgobj a s where f: "fetch im = Fetched raw msgobj"
    and rc: "recover_addr_status msgobj = Inr (Some a, Some s)" and ne: "a \<noteq> []" "s \<noteq> []"
    by blast
  from assms f rc ne have "move_aside im (create_bounces a s raw st) = (r, st')"
    by (simp add: process_message_def truthy_def)
  from move_aside_frame [OF this]
  have "Bounce_objects st' = Bounce_objects st
        @ map (new_bounce s raw) (filter (matches_address a) (Subscription_objects st))"
    and "Subscription_objects st' = Subscription_objects st" and "trace st' = trace st"
    by (simp_all add: create_bounces_def)
  moreover have "\<forall>b\<in>set (map (new_bounce s raw) (filter (matches_address a) (Subscription_objects st))).
     hard b = (startswith (status_code b) ''5'' \<and> status_code b \<noteq> ''5.2.2'')"
    by (simp add: new_bounce_def MAILBOX_FULL_def)
  ultimately show ?thesis by blast
next
  case False
  with assms have "st' = st"
    by (auto simp: process_message_def truthy_def
        split: fetch_result.splits sum.splits option.splits if_splits)
  then show ?thesis by simp
qed


lemma scan_inbox_bounces:
  "scan_inbox ims st = (r, st') \<Longrightarrow>
   \<exists>new. Bounce_objects st' = Bounce_objects st @ new
     \<and> (\<forall>b\<in>set new. hard b = (startswith (status_code b) ''5'' \<and> status_code b \<noteq> ''5.2.2''))
     \<and> Subscription_objects st' = Subscription_objects st \<and> trace st' = trace st"
proof (induction ims arbitrary: st)
  case Nil
  then show ?case by simp
next
  case (Cons im ims)
  obtain r1 st1 where p: "process_message im st = (r1, st1)" by (cases "process_message im st")
  from process_message_bounces [OF p] obtain new1 where
    n1: "Bounce_objects st1 = Bounce_objects st @ new1"
    "\<forall>b\<in>set new1. hard b = (startswith (status_code b) ''5'' \<and> status_code b \<noteq> ''5.2.2'')"
    "Subscription_objects st1 = Subscription_objects st" "trace st1 = trace st"
    by blast
  show ?case
  proof (cases r1)
    case (Inl e)
    with Cons.prems p have "st' = st1" by simp
    with n1 show ?thesis by blast
  next
    case (Inr u)
    with Cons.prems p have "scan_inbox ims st1 = (r, st')" by simp
    from Cons.IH [OF this] obtain new2 where
      n2: "Bounce_objects st' = Bounce_objects st1 @ new2"
      "\<forall>b\<in>set new2. hard b = (startswith (status_code b) ''5'' \<and> status_code b \<noteq> ''5.2.2'')"
      "Subscription_objects st' = Subscription_objects st1" "trace st' = trace st1"
      by blast
    from n1 n2 have "Bounce_objects st' = Bounce_objects st @ (new1 @ new2)"
      and "\<forall>b\<in>set (new1 @ new2).
         hard b = (startswith (status_code b) ''5'' \<and> status_code b \<noteq> ''5.2.2'')"
      and "Subscription_objects st' = Subscription_objects st" and "trace st' = trace st"
      by auto
    then show ?thesis by blast
  qed
qed

lemma check_bounces_bounces:
  assumes "check_bounces w st = (r, st')"
  shows "\<exists>new. Bounce_objects st' = Bounce_objects st @ new
     \<and> (\<forall>b\<in>set new. hard b = (startswith (status_code b) ''5'' \<and> status_code b \<noteq> ''5.2.2''))
     \<and> filter is_call (trace st') = filter is_call (trace st)"
proof (cases "BOUNCE_ACCOUNT w \<and> \<not> login_raises w")
  case False
  with assms have "Bounce_objects st' = Bounce_objects st @ []
     \<and> filter is_call (trace st') = filter is_call (trace st)"
    by (auto simp: check_bounces_def split: if_splits)
  then show ?thesis by (intro exI [of _ "[]"]) simp
next
  case True
  obtain r1 st1 where s: "scan_inbox (inbox (bounce_mailbox st)) st = (r1, st1)"
    by (cases "scan_inbox (inbox (bounce_mailbox st)) st")
  from scan_inbox_bounces [OF s] obtain new where
    n: "Bounce_objects st1 = Bounce_objects st @ new"
    "\<forall>b\<in>set new. hard b = (startswith (status_code b) ''5'' \<and> status_code b \<noteq> ''5.2.2'')"
    "trace st1 = trace st"
    by blast
  from assms True s have "Bounce_objects st' = Bounce_objects st1
     \<and> filter is_call (trace st') = filter is_call (trace st1)"
    by (auto simp: check_bounces_def expunge_def split: sum.splits if_splits)
  with n show ?thesis by auto
qed

text \<open>
  C2.  When a message of the inbox yields the address \<open>addr\<close> and the status \<open>s\<close>,
  one bounce row is added per subscription matching \<open>addr\<close>, with the status code \<open>s\<close>
  and with \<open>hard\<close> true exactly when \<open>s\<close> starts with \<open>5\<close> and is not \<open>5.2.2\<close>.  So every
  row a scan adds is classified by its status code: \<open>5.2.2\<close> is soft, any other status
  starting with \<open>5\<close> is hard, a status starting with \<open>2\<close> or \<open>4\<close> is soft.
\<close>

theorem bounce_hard_classification:
  "(fetch im = Fetched raw msgobj \<and> recover_addr_status msgobj = Inr (Some addr, Some s)
      \<and> addr \<noteq> [] \<and> s \<noteq> []
     \<longrightarrow> Bounce_objects (snd (process_message im st))
           = Bounce_objects st
             @ map (\<lambda>subscr. \<lparr>bounce_subscription = pk subscr,
                              hard = (startswith s ''5'' \<and> s \<noteq> ''5.2.2''),
                              status_code = s, content = raw\<rparr>)
                 (filter (matches_address addr) (Subscription_objects st)))
   \<and> (check_bounces w st = (r, st')
     \<longrightarrow> (\<exists>new. Bounce_objects st' = Bounce_objects st @ new
           \<and> (\<forall>b\<in>set new.
                 (hard b \<longleftrightarrow> startswith (status_code b) ''5'' \<and> status_code b \<noteq> ''5.2.2'')
               \<and> (status_code b = ''5.2.2'' \<longrightarrow> \<not> hard b)
               \<and> (startswith (status_code b) ''5'' \<and> status_code b \<noteq> ''5.2.2'' \<longrightarrow> hard b)
               \<and> (startswith (status_code b) ''2'' \<or> startswith (status_code b) ''4''
                    \<longrightarrow> \<not> hard b))))"
proof (intro conjI impI)
  assume a: "fetch im = Fetched raw msgobj \<and> recover_addr_status msgobj = Inr (Some addr, Some s)
      \<and> addr \<noteq> [] \<and> s \<noteq> []"
  obtain r1 st1 where m: "move_aside im (create_bounces addr s raw st) = (r1, st1)"
    by (cases "move_aside im (create_bounces addr s raw st)")
  with a have "process_message im st = (r1, st1)"
    by (simp add: process_message_def truthy_def)
  moreover from move_aside_frame [OF m]
  have "Bounce_objects st1 = Bounce_objects st
        @ map (new_bounce s raw) (filter (matches_address addr) (Subscription_objects st))"
    by (simp add: create_bounces_def)
  moreover have "new_bounce s raw = (\<lambda>subscr. \<lparr>bounce_subscription = pk subscr,
      hard = (startswith s ''5'' \<and> s \<noteq> ''5.2.2''), status_code = s, content = raw\<rparr>)"
    by (rule ext) (simp add: new_bounce_def MAILBOX_FULL_def)
  ultimately show "Bounce_objects (snd (process_message im st))
           = Bounce_objects st
             @ map (\<lambda>subscr. \<lparr>bounce_subscription = pk subscr,
                              hard = (startswith s ''5'' \<and> s \<noteq> ''5.2.2''),
                              status_code = s, content = raw\<rparr>)
                 (filter (matches_address addr) (Subscription_objects st))"
    by simp
next
  assume "check_bounces w st = (r, st')"
  from check_bounces_bounces [OF this] obtain new where
    n: "Bounce_objects st' = Bounce_objects st @ new"
    "\<forall>b\<in>set new. hard b = (startswith (status_code b) ''5'' \<and> status_code b \<noteq> ''5.2.2'')"
    by blast
  have "\<forall>b\<in>set new.
                 (hard b \<longleftrightarrow> startswith (status_code b) ''5'' \<and> status_code b \<noteq> ''5.2.2'')
               \<and> (status_code b = ''5.2.2'' \<longrightarrow> \<not> hard b)
               \<and> (startswith (status_code b) ''5'' \<and> status_code b \<noteq> ''5.2.2'' \<longrightarrow> hard b)
               \<and> (startswith (status_code b) ''2'' \<or> startswith (status_code b) ''4''
                    \<longrightarrow> \<not> hard b)"
  proof
    fix b assume "b \<in> set new"
    with n(2) have h: "hard b = (startswith (status_code b) ''5'' \<and> status_code b \<noteq> ''5.2.2'')"
      by blast
    have "startswith (status_code b) ''2'' \<or> startswith (status_code b) ''4''
       \<longrightarrow> \<not> startswith (status_code b) ''5''"
      by (cases "status_code b") (auto simp: startswith_def)
    with h show "(hard b \<longleftrightarrow> startswith (status_code b) ''5'' \<and> status_code b \<noteq> ''5.2.2'')
               \<and> (status_code b = ''5.2.2'' \<longrightarrow> \<not> hard b)
               \<and> (startswith (status_code b) ''5'' \<and> status_code b \<noteq> ''5.2.2'' \<longrightarrow> hard b)
               \<and> (startswith (status_code b) ''2'' \<or> startswith (status_code b) ''4''
                    \<longrightarrow> \<not> hard b)"
      by blast
  qed
  with n(1) show "\<exists>new. Bounce_objects st' = Bounce_objects st @ new
           \<and> (\<forall>b\<in>set new.
                 (hard b \<longleftrightarrow> startswith (status_code b) ''5'' \<and> status_code b \<noteq> ''5.2.2'')
               \<and> (status_code b = ''5.2.2'' \<longrightarrow> \<not> hard b)
               \<and> (startswith (status_code b) ''5'' \<and> status_code b \<noteq> ''5.2.2'' \<longrightarrow> hard b)
               \<and> (startswith (status_code b) ''2'' \<or> startswith (status_code b) ''4''
                    \<longrightarrow> \<not> hard b))"
    by blast
qed

lemma recover_bounce_with_To:
  "recover_addr_status bounce_with_To = Inr (Some ''bob@example.org'', Some ''5.2.2'')"
  by (simp add: recover_addr_status_def bounce_with_To_def get_header_def iexact_def
      lower_char_def verp_decode_def verp_re_match_def scan_delivery_status_def
      subpart_fields_def has_header_def truthy_def)

theorem bounce_hard_classification_witness:
  "Bounce_objects (snd (process_message mailbox_full_notice state_with_bob))
     = [\<lparr>bounce_subscription = Some 1, hard = False, status_code = ''5.2.2'',
         content = ''raw text 2''\<rparr>]
   \<and> (\<exists>new. Bounce_objects (snd (check_bounces world2 state3)) = Bounce_objects state3 @ new
        \<and> (\<forall>b\<in>set new. hard b
              \<longleftrightarrow> startswith (status_code b) ''5'' \<and> status_code b \<noteq> ''5.2.2''))"
proof -
  have a: "Bounce_objects (snd (process_message mailbox_full_notice state_with_bob))
     = [\<lparr>bounce_subscription = Some 1, hard = False, status_code = ''5.2.2'',
         content = ''raw text 2''\<rparr>]"
    using bounce_hard_classification [of mailbox_full_notice "''raw text 2''" bounce_with_To
        "''bob@example.org''" "''5.2.2''" state_with_bob]
      recover_bounce_with_To
    by (simp add: mailbox_full_notice_def state_with_bob_def empty_state_def
        subscribed_bob_def new_subscription_def matches_address_def iexact_def
        startswith_def)
  obtain r st' where cb: "check_bounces world2 state3 = (r, st')"
    by (cases "check_bounces world2 state3")
  with bounce_hard_classification [where w = world2 and st = state3 and r = r and st' = st']
  obtain new where "Bounce_objects st' = Bounce_objects state3 @ new"
    "\<forall>b\<in>set new. hard b \<longleftrightarrow> startswith (status_code b) ''5'' \<and> status_code b \<noteq> ''5.2.2''"
    by blast
  with cb have b: "\<exists>new. Bounce_objects (snd (check_bounces world2 state3))
       = Bounce_objects state3 @ new
     \<and> (\<forall>b\<in>set new. hard b
           \<longleftrightarrow> startswith (status_code b) ''5'' \<and> status_code b \<noteq> ''5.2.2'')"
    by auto
  from a b show ?thesis by simp
qed

lemma subpart_fields_keeps:
  "truthy addr \<Longrightarrow> fst (subpart_fields subpart addr status) = addr"
  by (simp add: subpart_fields_def Let_def)

lemma scan_subparts_keeps:
  "truthy addr \<Longrightarrow> fst (scan_subparts parts addr status) = addr"
proof (induction parts arbitrary: status)
  case Nil
  show ?case by simp
next
  case (Cons p ps)
  obtain a1 s1 where sf: "subpart_fields p addr status = (a1, s1)"
    by (cases "subpart_fields p addr status")
  with subpart_fields_keeps [OF Cons.prems, of p status] have a1: "a1 = addr" by simp
  show ?case
  proof (cases "truthy s1")
    case True
    with sf a1 Cons.prems show ?thesis by simp
  next
    case False
    with sf a1 Cons.prems Cons.IH [OF Cons.prems, of s1] show ?thesis by simp
  qed
qed

lemma verp_decode_truthy: "verp_decode t = Some a \<Longrightarrow> truthy (Some a)"
  by (auto simp: verp_decode_def truthy_def split: option.splits)

lemma scan_delivery_status_keeps:
  "truthy addr \<Longrightarrow> fst (scan_delivery_status msgobj addr) = addr"
  by (simp add: scan_delivery_status_def scan_subparts_keeps split: list.splits)

lemma remove_all_absent: "\<not> contains sub s \<Longrightarrow> remove_all sub s = s"
proof (induction sub s rule: remove_all.induct)
  case (1 sub s)
  show ?case
  proof (cases "sub = [] \<or> s = []")
    case True
    then show ?thesis by (simp del: remove_all.simps add: remove_all.simps [of sub s])
  next
    case False
    then obtain c cs where s: "s = c # cs" by (cases s) auto
    from "1.prems" s have ns: "\<not> startswith s sub" and nc: "\<not> contains sub cs" by simp_all
    from "1.IH"(2) [OF False ns] nc s have "remove_all sub cs = cs" by simp
    with False ns s show ?thesis
      by (simp del: remove_all.simps add: remove_all.simps [of sub "c # cs"])
  qed
qed

text \<open>
  What the scan does with a message that has a \<^verbatim>\<open>To\<close> header.  An address decoded
  from \<^verbatim>\<open>To\<close> is the recovered one, whatever the delivery status part says.  While
  no address is known, a sub-part gives its \<^verbatim>\<open>Original-Recipient\<close>, or its
  \<^verbatim>\<open>Final-Recipient\<close> when it has no \<^verbatim>\<open>Original-Recipient\<close>, stripped of
  surrounding white space and of every occurrence of \<^verbatim>\<open>rfc822;\<close> (so of a leading
  one).  A message without address or without status is skipped: the state, mailbox
  included, stays as it is.
\<close>

theorem recover_with_To:
  "(get_header ''To'' msgobj = Some t \<and> verp_decode t = Some a
      \<longrightarrow> (\<exists>status. recover_addr_status msgobj = Inr (Some a, status)))
   \<and> (\<not> truthy addr \<and> get_header ''Original-Recipient'' subpart = Some v
      \<longrightarrow> fst (subpart_fields subpart addr status)
          = Some (remove_all ''rfc822;'' (strip v)))
   \<and> (\<not> truthy addr \<and> get_header ''Original-Recipient'' subpart = None
       \<and> get_header ''Final-Recipient'' subpart = Some v
      \<longrightarrow> fst (subpart_fields subpart addr status)
          = Some (remove_all ''rfc822;'' (strip v)))
   \<and> (\<not> contains ''rfc822;'' rest
      \<longrightarrow> remove_all ''rfc822;'' (''rfc822;'' @ rest) = rest)
   \<and> (fetch im = Fetched raw msgobj \<and> recover_addr_status msgobj = Inr (addr, status)
       \<and> (\<not> truthy addr \<or> \<not> truthy status)
      \<longrightarrow> process_message im st = (Inr (), st))"
proof (intro conjI impI)
  assume a: "get_header ''To'' msgobj = Some t \<and> verp_decode t = Some a"
  then have "truthy (Some a)" using verp_decode_truthy by blast
  from scan_delivery_status_keeps [OF this, of msgobj]
  obtain status where "scan_delivery_status msgobj (Some a) = (Some a, status)"
    by (cases "scan_delivery_status msgobj (Some a)") simp
  with a show "\<exists>status. recover_addr_status msgobj = Inr (Some a, status)"
    by (simp add: recover_addr_status_def)
next
  assume a: "\<not> truthy addr \<and> get_header ''Original-Recipient'' subpart = Some v"
  then have h: "has_header ''Original-Recipient'' subpart"
    by (auto simp: has_header_def get_header_def split: list.splits)
  show "fst (subpart_fields subpart addr status) = Some (remove_all ''rfc822;'' (strip v))"
  proof (cases "contains ''rfc822;'' (strip v)")
    case True
    then have "strip v \<noteq> []" by (cases "strip v") auto
    with a h True show ?thesis by (simp add: subpart_fields_def Let_def)
  next
    case False
    with a h remove_all_absent [OF False] show ?thesis
      by (simp add: subpart_fields_def Let_def)
  qed
next
  assume a: "\<not> truthy addr \<and> get_header ''Original-Recipient'' subpart = None
       \<and> get_header ''Final-Recipient'' subpart = Some v"
  then have h: "\<not> has_header ''Original-Recipient'' subpart"
    "has_header ''Final-Recipient'' subpart"
    by (auto simp: has_header_def get_header_def split: list.splits)
  show "fst (subpart_fields subpart addr status) = Some (remove_all ''rfc822;'' (strip v))"
  proof (cases "contains ''rfc822;'' (strip v)")
    case True
    then have "strip v \<noteq> []" by (cases "strip v") auto
    with a h True show ?thesis by (simp add: subpart_fields_def Let_def)
  next
    case False
    with a h remove_all_absent [OF False] show ?thesis
      by (simp add: subpart_fields_def Let_def)
  qed
next
  assume "\<not> contains ''rfc822;'' rest"
  from remove_all_absent [OF this]
  show "remove_all ''rfc822;'' (''rfc822;'' @ rest) = rest"
    by (subst remove_all.simps) (simp add: startswith_def)
next
  assume "fetch im = Fetched raw msgobj \<and> recover_addr_status msgobj = Inr (addr, status)
       \<and> (\<not> truthy addr \<or> \<not> truthy status)"
  then show "process_message im st = (Inr (), st)"
    by (auto simp: process_message_def)
qed

theorem recover_with_To_witness:
  "(\<exists>status. recover_addr_status bounce_with_To = Inr (Some ''bob@example.org'', status))
   \<and> process_message plain_reply state_with_bob = (Inr (), state_with_bob)"
proof -
  have "get_header ''To'' bounce_with_To = Some ''bounce+bob=example.org@example.net''
     \<and> verp_decode ''bounce+bob=example.org@example.net'' = Some ''bob@example.org''"
    by (simp add: get_header_def bounce_with_To_def iexact_def lower_char_def
        verp_decode_def verp_re_match_def)
  with recover_with_To [where msgobj = bounce_with_To
      and t = "''bounce+bob=example.org@example.net''" and a = "''bob@example.org''"]
  have a: "\<exists>status. recover_addr_status bounce_with_To = Inr (Some ''bob@example.org'', status)"
    by blast
  let ?m = "Email [(''To'', ''bounce@example.net''), (''Subject'', ''Out of office'')]
          ''text/plain'' []"
  have "fetch plain_reply = Fetched ''raw text 3'' ?m
     \<and> recover_addr_status ?m = Inr (None, None)
     \<and> (\<not> truthy None \<or> \<not> truthy None)"
    by (simp add: plain_reply_def recover_addr_status_def get_header_def iexact_def
        lower_char_def verp_decode_def verp_re_match_def scan_delivery_status_def
        truthy_def)
  with recover_with_To [where im = plain_reply and raw = "''raw text 3''" and msgobj = ?m
      and addr = None and status = None and st = state_with_bob]
  have b: "process_message plain_reply state_with_bob = (Inr (), state_with_bob)"
    by blast
  from a b show ?thesis by simp
qed

text \<open>
  C8.  A message without \<^verbatim>\<open>To\<close> header: the header lookup returns \<open>None\<close>, which
  \<^verbatim>\<open>verp_re.match\<close> does not accept.  The delivery status part would give the
  address and the status, but the scan ends with a TypeError that
  \<^verbatim>\<open>check_bounces\<close> does not catch; nothing is recorded, moved or expunged.
\<close>

theorem check_bounces_missing_To:
  "get_header ''To'' bounce_without_To = None
   \<and> scan_delivery_status bounce_without_To None = (Some ''bob@example.org'', Some ''5.1.1'')
   \<and> check_bounces world2 state2 = (Inl TypeError, state2)"
  by (simp add: get_header_def bounce_without_To_def iexact_def lower_char_def
      scan_delivery_status_def subpart_fields_def has_header_def truthy_def strip_def
      is_space_def startswith_def check_bounces_def world2_def world1_def state2_def
      state_with_bob_def empty_state_def process_message_def recover_addr_status_def)

section \<open>Properties of the queue\<close>

















end
